theory Spec2Isabelle
  imports Complex_Main "HOL-Library.Word"
begin

section \<open>JavaScript strings\<close>

text \<open>
  The parser works on JavaScript strings, which are sequences of UTF-16 code units.
  \<open>charCodeAt\<close> returns the code unit at an index as a number between 0 and 65535,
  \<open>substring\<close> clamps both indices to the string and swaps them when the first is
  larger, and \<open>split\<close> with a one-character separator cuts the string at every
  occurrence of it (the result always has at least one element).
\<close>

type_synonym code_unit = "16 word"
type_synonym jsstring = "code_unit list"

definition str :: "string \<Rightarrow> jsstring" where
  "str cs = map of_char cs"

definition charCodeAt :: "jsstring \<Rightarrow> nat \<Rightarrow> nat" where
  "charCodeAt s i = unat (s ! i)"

definition substring :: "jsstring \<Rightarrow> nat \<Rightarrow> nat \<Rightarrow> jsstring" where
  "substring s a b =
     (let a' = min a (length s); b' = min b (length s);
          from = min a' b'; to = max a' b'
      in take (to - from) (drop from s))"

fun split :: "code_unit \<Rightarrow> jsstring \<Rightarrow> jsstring list" where
  "split sep [] = [] # []"
| "split sep (c # cs) =
     (if c = sep then [] # split sep cs
      else (case split sep cs of
              [] \<Rightarrow> [c] # []
            | w # ws \<Rightarrow> (c # w) # ws))"

section \<open>JavaScript numbers\<close>

text \<open>
  A Number is an IEEE 754 binary64 value: not-a-number, an infinity, negative zero, or a
  finite value \<open>Fin q\<close> where \<open>q\<close> is a rational that binary64 represents
  (\<open>Fin 0\<close> is positive zero). \<open>to_double\<close> rounds a rational to the nearest
  binary64 value, ties to the even significand: with \<open>e\<close> the binary exponent of
  the value (at least -1022, where the subnormal numbers begin) the value is rounded to a
  multiple \<open>n\<close> of \<open>2 ^ (e - 52)\<close>, and it overflows to an infinity when the
  rounded value reaches \<open>2 ^ 1024\<close>.
\<close>

datatype number = NaN | PosInf | NegInf | NegZero | Fin rat

function log2floor :: "int \<Rightarrow> int" where
  "log2floor n = (if n < 2 then 0 else 1 + log2floor (n div 2))"
  by pat_completeness auto
termination
  by (relation "measure nat") auto

declare log2floor.simps [simp del]

definition pow2 :: "int \<Rightarrow> rat" where
  "pow2 e = (if 0 \<le> e then of_int (2 ^ nat e) else 1 / of_int (2 ^ nat (- e)))"

definition binade :: "rat \<Rightarrow> int" where
  "binade a =
     (if 1 \<le> a then log2floor \<lfloor>a\<rfloor>
      else let r = 1 / a; k = log2floor \<lfloor>r\<rfloor>
           in if r = pow2 k then - k else - k - 1)"

definition round_half_even :: "rat \<Rightarrow> int" where
  "round_half_even x =
     (let f = \<lfloor>x\<rfloor>; d = x - of_int f
      in if d < 1 / 2 then f
         else if 1 / 2 < d then f + 1
         else if even f then f else f + 1)"

definition to_double :: "rat \<Rightarrow> number" where
  "to_double x =
     (if x = 0 then Fin 0
      else let a = \<bar>x\<bar>;
               e = max (binade a) (- 1022);
               ulp = pow2 (e - 52);
               n = round_half_even (a / ulp)
           in if 1024 \<le> e \<or> (e = 1023 \<and> n = 2 ^ 53)
              then (if x < 0 then NegInf else PosInf)
              else if n = 0 then (if x < 0 then NegZero else Fin 0)
              else Fin (if x < 0 then - (of_int n * ulp) else of_int n * ulp))"

text \<open>Unary minus, addition and subtraction of Numbers (\<open>x - y\<close> is \<open>x + (-y)\<close>).\<close>

fun num_neg :: "number \<Rightarrow> number" where
  "num_neg NaN = NaN"
| "num_neg PosInf = NegInf"
| "num_neg NegInf = PosInf"
| "num_neg NegZero = Fin 0"
| "num_neg (Fin q) = (if q = 0 then NegZero else Fin (- q))"

fun num_add :: "number \<Rightarrow> number \<Rightarrow> number" where
  "num_add NaN y = NaN"
| "num_add x NaN = NaN"
| "num_add PosInf NegInf = NaN"
| "num_add NegInf PosInf = NaN"
| "num_add PosInf y = PosInf"
| "num_add NegInf y = NegInf"
| "num_add x PosInf = PosInf"
| "num_add x NegInf = NegInf"
| "num_add NegZero y = y"
| "num_add x NegZero = x"
| "num_add (Fin p) (Fin q) = to_double (p + q)"

definition num_sub :: "number \<Rightarrow> number \<Rightarrow> number" where
  "num_sub x y = num_add x (num_neg y)"

text \<open>Truthiness of a Number: NaN and both zeros are falsy.\<close>

fun num_truthy :: "number \<Rightarrow> bool" where
  "num_truthy NaN = False"
| "num_truthy NegZero = False"
| "num_truthy (Fin q) = (q \<noteq> 0)"
| "num_truthy _ = True"

section \<open>parseFloat\<close>

text \<open>
  \<open>parseFloat\<close> skips leading white space and line terminators, takes the longest
  prefix of the rest that is a decimal literal (an optional sign, then \<open>Infinity\<close> or
  digits with an optional fraction and an optional exponent) and returns its value
  rounded to binary64, the exact decimal value being rounded once, as engines do. When
  no prefix is a decimal literal the result is NaN.
\<close>

definition is_whitespace :: "code_unit \<Rightarrow> bool" where
  "is_whitespace c =
     (c \<in> {0x09, 0x0A, 0x0B, 0x0C, 0x0D, 0x20, 0xA0, 0x1680, 0x2028, 0x2029,
            0x202F, 0x205F, 0x3000, 0xFEFF}
      \<or> (0x2000 \<le> c \<and> c \<le> 0x200A))"

definition is_digit :: "code_unit \<Rightarrow> bool" where
  "is_digit c = (0x30 \<le> c \<and> c \<le> 0x39)"

definition digits_value :: "jsstring \<Rightarrow> int" where
  "digits_value ds = foldl (\<lambda>a c. 10 * a + (uint c - 48)) 0 ds"

definition exponent_part :: "jsstring \<Rightarrow> int" where
  "exponent_part r =
     (case r of
        [] \<Rightarrow> 0
      | c # r1 \<Rightarrow>
          if c = 0x65 \<or> c = 0x45 then
            (case r1 of
               [] \<Rightarrow> 0
             | sg # r2 \<Rightarrow>
                 if sg = 0x2B \<and> takeWhile is_digit r2 \<noteq> []
                 then digits_value (takeWhile is_digit r2)
                 else if sg = 0x2D \<and> takeWhile is_digit r2 \<noteq> []
                 then - digits_value (takeWhile is_digit r2)
                 else digits_value (takeWhile is_digit r1))
          else 0)"

definition decimal_value :: "bool \<Rightarrow> int \<Rightarrow> int \<Rightarrow> number" where
  "decimal_value neg m e =
     (if m = 0 then (if neg then NegZero else Fin 0)
      else let q = (if 0 \<le> e then of_int (m * 10 ^ nat e) else of_int m / of_int (10 ^ nat (- e)))
           in to_double (if neg then - q else q))"

definition unsigned_literal :: "bool \<Rightarrow> jsstring \<Rightarrow> number" where
  "unsigned_literal neg s =
     (if take 8 s = str ''Infinity'' then (if neg then NegInf else PosInf)
      else let ip = takeWhile is_digit s; r = dropWhile is_digit s
           in if take 1 r = [0x2E] then
                let fp = takeWhile is_digit (drop 1 r); r2 = dropWhile is_digit (drop 1 r)
                in if ip = [] \<and> fp = [] then NaN
                   else decimal_value neg (digits_value (ip @ fp))
                          (exponent_part r2 - int (length fp))
              else if ip = [] then NaN
              else decimal_value neg (digits_value ip) (exponent_part r))"

definition parseFloat :: "jsstring \<Rightarrow> number" where
  "parseFloat s =
     (let t = dropWhile is_whitespace s
      in case t of
           [] \<Rightarrow> NaN
         | c # r \<Rightarrow>
             if c = 0x2B then unsigned_literal False r
             else if c = 0x2D then unsigned_literal True r
             else unsigned_literal False t)"

section \<open>atob\<close>

text \<open>
  \<open>atob\<close> is the browser's forgiving base64 decoder: it removes ASCII white space,
  removes one or two trailing \<open>=\<close> when the length is a multiple of four, and raises
  \<open>InvalidCharacterError\<close> when the remaining length is 1 modulo 4 or a character is
  outside the base64 alphabet. The result holds one code unit below 256 per byte.
\<close>

datatype error = InvalidCharacterError

definition is_ascii_whitespace :: "code_unit \<Rightarrow> bool" where
  "is_ascii_whitespace c = (c \<in> {0x09, 0x0A, 0x0C, 0x0D, 0x20})"

definition is_base64_char :: "code_unit \<Rightarrow> bool" where
  "is_base64_char c =
     ((0x41 \<le> c \<and> c \<le> 0x5A) \<or> (0x61 \<le> c \<and> c \<le> 0x7A) \<or> (0x30 \<le> c \<and> c \<le> 0x39)
      \<or> c = 0x2B \<or> c = 0x2F)"

definition base64_index :: "code_unit \<Rightarrow> nat" where
  "base64_index c =
     (if 0x41 \<le> c \<and> c \<le> 0x5A then unat c - 65
      else if 0x61 \<le> c \<and> c \<le> 0x7A then unat c - 71
      else if 0x30 \<le> c \<and> c \<le> 0x39 then unat c + 4
      else if c = 0x2B then 62
      else 63)"

text \<open>
  Four 6-bit indices give three bytes; a final group of three gives two bytes and a
  final group of two gives one, the bits left over being discarded.
\<close>

fun base64_bytes :: "nat list \<Rightarrow> jsstring" where
  "base64_bytes (a # b # c # d # rest) =
     of_nat (a * 4 + b div 16) # of_nat (b mod 16 * 16 + c div 4) # of_nat (c mod 4 * 64 + d)
       # base64_bytes rest"
| "base64_bytes [a, b, c] = [of_nat (a * 4 + b div 16), of_nat (b mod 16 * 16 + c div 4)]"
| "base64_bytes [a, b] = [of_nat (a * 4 + b div 16)]"
| "base64_bytes _ = []"

definition strip_padding :: "jsstring \<Rightarrow> jsstring" where
  "strip_padding d =
     (if length d mod 4 = 0 then
        (if 2 \<le> length d \<and> drop (length d - 2) d = [0x3D, 0x3D] then take (length d - 2) d
         else if 1 \<le> length d \<and> drop (length d - 1) d = [0x3D] then take (length d - 1) d
         else d)
      else d)"

definition atob :: "jsstring \<Rightarrow> error + jsstring" where
  "atob s =
     (let d = strip_padding (filter (\<lambda>c. \<not> is_ascii_whitespace c) s)
      in if length d mod 4 = 1 then Inl InvalidCharacterError
         else if \<not> list_all is_base64_char d then Inl InvalidCharacterError
         else Inr (base64_bytes (map base64_index d)))"

section \<open>The ZATCA QR parser\<close>

text \<open>
  \<open>Partial<ZATCAData>\<close>: every field of the record may be undefined while the parser
  fills it in, and the value returned is the same object.
\<close>

record ZATCAData =
  sellerName :: "jsstring option"
  vatNumber :: "jsstring option"
  invoiceNumber :: "jsstring option"
  invoiceDate :: "jsstring option"
  subtotal :: "number option"
  vatAmount :: "number option"
  totalAmount :: "number option"

definition empty_data :: ZATCAData where
  "empty_data =
     \<lparr>sellerName = None, vatNumber = None, invoiceNumber = None, invoiceDate = None,
      subtotal = None, vatAmount = None, totalAmount = None\<rparr>"

text \<open>Truthiness of an optional string (undefined and the empty string are falsy) and of
  an optional number.\<close>

fun string_truthy :: "jsstring option \<Rightarrow> bool" where
  "string_truthy None = False"
| "string_truthy (Some v) = (v \<noteq> [])"

fun number_truthy :: "number option \<Rightarrow> bool" where
  "number_truthy None = False"
| "number_truthy (Some x) = num_truthy x"

text \<open>The \<open>switch (tag)\<close> of the loop body.\<close>

definition store_field :: "nat \<Rightarrow> jsstring \<Rightarrow> ZATCAData \<Rightarrow> ZATCAData" where
  "store_field tag val data =
     (if tag = 1 then data\<lparr>sellerName := Some val\<rparr>
      else if tag = 2 then data\<lparr>vatNumber := Some val\<rparr>
      else if tag = 3 then data\<lparr>invoiceDate := Some (hd (split 0x54 val))\<rparr>
      else if tag = 4 then data\<lparr>totalAmount := Some (parseFloat val)\<rparr>
      else if tag = 5 then data\<lparr>vatAmount := Some (parseFloat val)\<rparr>
      else data)"

text \<open>The \<open>while (position < decodedData.length)\<close> loop, with its two \<open>break\<close>s.\<close>

function tlv_loop :: "jsstring \<Rightarrow> nat \<Rightarrow> ZATCAData \<Rightarrow> ZATCAData" where
  "tlv_loop decodedData position data =
     (if position < length decodedData then
        if position + 1 \<ge> length decodedData then data
        else
          let tag = charCodeAt decodedData position;
              len = charCodeAt decodedData (position + 1)
          in if position + 2 + len > length decodedData then data
             else
               let val = substring decodedData (position + 2) (position + 2 + len)
               in tlv_loop decodedData (position + 2 + len) (store_field tag val data)
      else data)"
  by pat_completeness auto
termination
  by (relation "measure (\<lambda>(decodedData, position, data). length decodedData - position)")
     auto

declare tlv_loop.simps [simp del]

text \<open>Decimal digits of an integer, as the template literal renders \<open>Date.now()\<close>.\<close>

function digits_of :: "int \<Rightarrow> jsstring" where
  "digits_of n =
     (if n < 10 then [of_int (48 + n)]
      else digits_of (n div 10) @ [of_int (48 + n mod 10)])"
  by pat_completeness auto
termination
  by (relation "measure nat") auto

declare digits_of.simps [simp del]

definition toString :: "int \<Rightarrow> jsstring" where
  "toString i = (if i < 0 then 0x2D # digits_of (- i) else digits_of i)"

definition decode :: "jsstring \<Rightarrow> jsstring" where
  "decode qrData = (case atob qrData of Inr decodedData \<Rightarrow> decodedData | Inl _ \<Rightarrow> qrData)"

text \<open>
  \<open>if (data.totalAmount && data.vatAmount)\<close>: both amounts are defined when the test
  succeeds, so the last case below is never taken.
\<close>

definition calculate_subtotal :: "ZATCAData \<Rightarrow> ZATCAData" where
  "calculate_subtotal data =
     (if number_truthy (totalAmount data) \<and> number_truthy (vatAmount data) then
        (case (totalAmount data, vatAmount data) of
           (Some total_amount, Some vat_amount) \<Rightarrow>
             data\<lparr>subtotal := Some (num_sub total_amount vat_amount)\<rparr>
         | _ \<Rightarrow> data)
      else data)"

definition generate_invoice_number :: "int \<Rightarrow> ZATCAData \<Rightarrow> ZATCAData" where
  "generate_invoice_number now data =
     (if \<not> string_truthy (invoiceNumber data)
      then data\<lparr>invoiceNumber := Some (str ''INV-'' @ toString now)\<rparr> else data)"

text \<open>
  \<open>parseZATCAQR\<close>; \<open>now\<close> is the value \<open>Date.now()\<close> returns during the call.
  The only operation of the body that can raise is \<open>atob\<close>, whose error the inner
  \<open>try\<close> catches, so the outer \<open>catch\<close> has no branch here. The body is cut
  in two where \<open>decodedData\<close> has been assigned: \<open>parse_decoded\<close> is everything
  after the inner \<open>try\<close>.
\<close>

definition parse_decoded :: "int \<Rightarrow> jsstring \<Rightarrow> ZATCAData option" where
  "parse_decoded now decodedData =
     (let data = tlv_loop decodedData 0 empty_data;
          data = calculate_subtotal data;
          data = generate_invoice_number now data
      in if string_truthy (sellerName data) \<and> string_truthy (vatNumber data)
            \<and> totalAmount data \<noteq> None
         then Some data else None)"

definition parseZATCAQR :: "int \<Rightarrow> jsstring \<Rightarrow> ZATCAData option" where
  "parseZATCAQR now qrData = parse_decoded now (decode qrData)"

definition isValidZATCAQR :: "int \<Rightarrow> jsstring \<Rightarrow> bool" where
  "isValidZATCAQR now qrData = (parseZATCAQR now qrData \<noteq> None)"

section \<open>TLV fields\<close>

text \<open>
  The walker of the specification: \<open>scan\<close> returns the complete (tag, value) fields
  of a byte sequence from a cursor on, stopping at a truncated header or value.
  \<open>interpret_fields\<close> stores them in walk order, and \<open>last_value\<close> is the value of
  the last field that carries a tag.
\<close>

type_synonym tlv_field = "nat \<times> jsstring"

function scan :: "jsstring \<Rightarrow> nat \<Rightarrow> tlv_field list" where
  "scan bytes cursor =
     (if length bytes < cursor + 2 then []
      else let tag = unat (bytes ! cursor); len = unat (bytes ! (cursor + 1))
           in if length bytes < cursor + 2 + len then []
              else (tag, take len (drop (cursor + 2) bytes)) # scan bytes (cursor + 2 + len))"
  by pat_completeness auto
termination
  by (relation "measure (\<lambda>(bytes, cursor). length bytes - cursor)") auto

declare scan.simps [simp del]

definition interpret_fields :: "ZATCAData \<Rightarrow> tlv_field list \<Rightarrow> ZATCAData" where
  "interpret_fields data fs = foldl (\<lambda>d f. store_field (fst f) (snd f) d) data fs"

definition last_value :: "nat \<Rightarrow> tlv_field list \<Rightarrow> jsstring option" where
  "last_value t fs = map_of (rev fs) t"

definition tlv_fields :: "jsstring \<Rightarrow> tlv_field list" where
  "tlv_fields qrData = scan (decode qrData) 0"

text \<open>
  A field is encoded as its tag, its length and its value; both tag and length must fit
  in one code unit. A payload is the concatenation of encoded fields, and
  \<open>complete_fields k fs\<close> are the leading fields of \<open>fs\<close> whose encoding ends within
  the first \<open>k\<close> code units of the payload.
\<close>

definition encode_field :: "tlv_field \<Rightarrow> jsstring" where
  "encode_field f = of_nat (fst f) # of_nat (length (snd f)) # snd f"

definition payload :: "tlv_field list \<Rightarrow> jsstring" where
  "payload fs = concat (map encode_field fs)"

definition wf_field :: "tlv_field \<Rightarrow> bool" where
  "wf_field f = (fst f < 65536 \<and> length (snd f) < 65536)"

fun complete_fields :: "nat \<Rightarrow> tlv_field list \<Rightarrow> tlv_field list" where
  "complete_fields k [] = []"
| "complete_fields k (f # fs) =
     (if 2 + length (snd f) \<le> k then f # complete_fields (k - (2 + length (snd f))) fs
      else [])"

text \<open>
  The indices of \<open>decodedData\<close> that the loop reads from a position on: the two
  \<open>charCodeAt\<close> calls of each iteration, then the range of its \<open>substring\<close>.
\<close>

function reads :: "jsstring \<Rightarrow> nat \<Rightarrow> nat list" where
  "reads decodedData position =
     (if position < length decodedData then
        if position + 1 \<ge> length decodedData then []
        else
          let len = charCodeAt decodedData (position + 1)
          in [position, position + 1] @
             (if position + 2 + len > length decodedData then []
              else [position + 2 ..< position + 2 + len]
                   @ reads decodedData (position + 2 + len))
      else [])"
  by pat_completeness auto
termination
  by (relation "measure (\<lambda>(decodedData, position). length decodedData - position)") auto

declare reads.simps [simp del]

section \<open>Numbers: known values\<close>

text \<open>
  The rounding agrees with binary64 on values whose results are known: 0.1 is
  3602879701896397 / 2^55, and 0.3 - 0.1 is 0.19999999999999998 and not 0.2.
\<close>

lemma number_examples:
  "parseFloat (str ''0.1'') = Fin (3602879701896397 / 36028797018963968)"
  "num_sub (parseFloat (str ''0.3'')) (parseFloat (str ''0.1'')) =
     parseFloat (str ''0.19999999999999998'')"
  "num_sub (parseFloat (str ''0.3'')) (parseFloat (str ''0.1'')) \<noteq> parseFloat (str ''0.2'')"
  "parseFloat (str ''-0'') = NegZero"
  "parseFloat (str '' 12px'') = Fin 12"
  "parseFloat (str ''.5e1'') = Fin 5"
  "parseFloat (str ''e5'') = NaN"
  by code_simp+

section \<open>The loop and the walker\<close>

lemma substring_take_drop:
  "a \<le> b \<Longrightarrow> b \<le> length s \<Longrightarrow> substring s a b = take (b - a) (drop a s)"
  by (simp add: substring_def Let_def min_def max_def)

lemma tlv_loop_scan:
  "tlv_loop s pos d = interpret_fields d (scan s pos)"
proof (induction s pos d rule: tlv_loop.induct)
  case (1 s pos d)
  show ?case
  proof (cases "pos + 1 < length s \<and> pos + 2 + charCodeAt s (pos + 1) \<le> length s")
    case True
    then have "tlv_loop s pos d =
        tlv_loop s (pos + 2 + charCodeAt s (pos + 1))
          (store_field (charCodeAt s pos)
             (substring s (pos + 2) (pos + 2 + charCodeAt s (pos + 1))) d)"
      by (subst tlv_loop.simps) (simp add: Let_def)
    also have "\<dots> = interpret_fields (store_field (charCodeAt s pos)
             (substring s (pos + 2) (pos + 2 + charCodeAt s (pos + 1))) d)
             (scan s (pos + 2 + charCodeAt s (pos + 1)))"
      using True by (intro "1.IH") auto
    also have "\<dots> = interpret_fields d (scan s pos)"
      using True
      by (subst (2) scan.simps)
         (simp add: Let_def interpret_fields_def charCodeAt_def substring_take_drop)
    finally show ?thesis .
  next
    case False
    then have "tlv_loop s pos d = d"
      by (subst tlv_loop.simps) (auto simp: Let_def)
    moreover from False have "scan s pos = []"
      by (subst scan.simps) (auto simp: Let_def charCodeAt_def)
    ultimately show ?thesis by (simp add: interpret_fields_def)
  qed
qed

lemma scan_shift: "scan (p @ s) (length p + k) = scan s k"
proof (induction s k rule: scan.induct)
  case (1 s k)
  show ?case
  proof (cases "length s < k + 2")
    case True
    then show ?thesis
      by (subst scan.simps, subst (2) scan.simps) simp
  next
    case False
    note nf = this
    let ?len = "unat (s ! (k + 1))"
    show ?thesis
    proof (cases "length s < k + 2 + ?len")
      case True
      with nf show ?thesis
        by (subst scan.simps, subst (2) scan.simps)
           (simp add: Let_def nth_append)
    next
      case False
      with nf have "scan (p @ s) (length p + (k + 2 + ?len)) = scan s (k + 2 + ?len)"
        by (intro "1.IH") auto
      with nf False show ?thesis
        by (subst scan.simps, subst (2) scan.simps)
           (simp add: Let_def nth_append add.assoc)
    qed
  qed
qed

lemma unat_of_nat16: "n < 65536 \<Longrightarrow> unat (of_nat n :: code_unit) = n"
  by (simp add: unat_of_nat)

lemma scan_field:
  assumes "wf_field f"
  shows "scan (encode_field f @ rest) 0 = f # scan rest 0"
proof -
  obtain t v where f: "f = (t, v)" by (cases f)
  from assms f have t: "t < 65536" and v: "length v < 65536"
    by (simp_all add: wf_field_def)
  have sh: "scan (encode_field f @ rest) (length (encode_field f) + 0) = scan rest 0"
    by (rule scan_shift)
  have len: "length (encode_field f) = 2 + length v"
    by (simp add: encode_field_def f)
  show ?thesis
    using sh t v
    by (subst scan.simps) (simp add: Let_def len encode_field_def f unat_of_nat16)
qed

lemma scan_payload:
  "list_all wf_field fs \<Longrightarrow> scan (payload fs @ rest) 0 = fs @ scan rest 0"
  by (induction fs) (simp_all add: payload_def scan_field)

section \<open>Interpreting the fields\<close>

lemma split_nonempty: "split sep s \<noteq> []"
  by (induction s) (auto split: list.splits)

lemma hd_split: "hd (split sep s) = takeWhile (\<lambda>c. c \<noteq> sep) s"
  using split_nonempty [of sep]
  by (induction s) (auto split: list.splits)

lemma interpret_fields_snoc:
  "interpret_fields d (fs @ [f]) = store_field (fst f) (snd f) (interpret_fields d fs)"
  by (simp add: interpret_fields_def)

lemma last_value_snoc:
  "last_value t (fs @ [f]) = (if fst f = t then Some (snd f) else last_value t fs)"
  by (cases f) (simp add: last_value_def)

lemma last_value_Nil: "last_value t [] = None"
  by (simp add: last_value_def)

lemma interpret_sellerName:
  "sellerName (interpret_fields d fs) =
     (case last_value 1 fs of None \<Rightarrow> sellerName d | Some v \<Rightarrow> Some v)"
  by (induction fs rule: rev_induct)
     (simp_all add: interpret_fields_snoc last_value_snoc last_value_Nil store_field_def,
      simp add: interpret_fields_def)

lemma interpret_vatNumber:
  "vatNumber (interpret_fields d fs) =
     (case last_value 2 fs of None \<Rightarrow> vatNumber d | Some v \<Rightarrow> Some v)"
  by (induction fs rule: rev_induct)
     (simp_all add: interpret_fields_snoc last_value_snoc last_value_Nil store_field_def,
      simp add: interpret_fields_def)

lemma interpret_invoiceDate:
  "invoiceDate (interpret_fields d fs) =
     (case last_value 3 fs of None \<Rightarrow> invoiceDate d
      | Some v \<Rightarrow> Some (takeWhile (\<lambda>c. c \<noteq> 0x54) v))"
  by (induction fs rule: rev_induct)
     (simp_all add: interpret_fields_snoc last_value_snoc last_value_Nil store_field_def
        hd_split,
      simp add: interpret_fields_def)

lemma interpret_totalAmount:
  "totalAmount (interpret_fields d fs) =
     (case last_value 4 fs of None \<Rightarrow> totalAmount d | Some v \<Rightarrow> Some (parseFloat v))"
  by (induction fs rule: rev_induct)
     (simp_all add: interpret_fields_snoc last_value_snoc last_value_Nil store_field_def,
      simp add: interpret_fields_def)

lemma interpret_vatAmount:
  "vatAmount (interpret_fields d fs) =
     (case last_value 5 fs of None \<Rightarrow> vatAmount d | Some v \<Rightarrow> Some (parseFloat v))"
  by (induction fs rule: rev_induct)
     (simp_all add: interpret_fields_snoc last_value_snoc last_value_Nil store_field_def,
      simp add: interpret_fields_def)

lemma interpret_invoiceNumber:
  "invoiceNumber (interpret_fields d fs) = invoiceNumber d"
  by (induction fs rule: rev_induct)
     (simp_all add: interpret_fields_snoc store_field_def, simp add: interpret_fields_def)

lemma interpret_subtotal:
  "subtotal (interpret_fields d fs) = subtotal d"
  by (induction fs rule: rev_induct)
     (simp_all add: interpret_fields_snoc store_field_def, simp add: interpret_fields_def)

lemmas interpret_simps =
  interpret_sellerName interpret_vatNumber interpret_invoiceDate interpret_totalAmount
  interpret_vatAmount interpret_invoiceNumber interpret_subtotal

lemma calculate_subtotal_fields:
  "sellerName (calculate_subtotal d) = sellerName d"
  "vatNumber (calculate_subtotal d) = vatNumber d"
  "invoiceNumber (calculate_subtotal d) = invoiceNumber d"
  "invoiceDate (calculate_subtotal d) = invoiceDate d"
  "vatAmount (calculate_subtotal d) = vatAmount d"
  "totalAmount (calculate_subtotal d) = totalAmount d"
  by (simp_all add: calculate_subtotal_def split: option.splits)

lemma generate_invoice_number_fields:
  "sellerName (generate_invoice_number now d) = sellerName d"
  "vatNumber (generate_invoice_number now d) = vatNumber d"
  "invoiceDate (generate_invoice_number now d) = invoiceDate d"
  "subtotal (generate_invoice_number now d) = subtotal d"
  "vatAmount (generate_invoice_number now d) = vatAmount d"
  "totalAmount (generate_invoice_number now d) = totalAmount d"
  by (simp_all add: generate_invoice_number_def)

text \<open>The record that the parser has built when it reaches the validity check.\<close>

lemma parse_decoded_Some:
  assumes "parse_decoded now s = Some r"
  shows "r = generate_invoice_number now (calculate_subtotal (interpret_fields empty_data (scan s 0)))"
  using assms
  by (simp add: parse_decoded_def Let_def tlv_loop_scan split: if_splits)

lemma parse_decoded_None_iff:
  "parse_decoded now s = None \<longleftrightarrow>
     \<not> (string_truthy (last_value 1 (scan s 0)) \<and> string_truthy (last_value 2 (scan s 0))
        \<and> last_value 4 (scan s 0) \<noteq> None)"
  by (simp add: parse_decoded_def Let_def tlv_loop_scan generate_invoice_number_fields
        calculate_subtotal_fields interpret_simps empty_data_def split: option.splits)

lemma parse_decoded_fields:
  assumes "parse_decoded now s = Some r"
  shows "sellerName r = last_value 1 (scan s 0)"
    and "vatNumber r = last_value 2 (scan s 0)"
    and "invoiceDate r = map_option (takeWhile (\<lambda>c. c \<noteq> 0x54)) (last_value 3 (scan s 0))"
    and "totalAmount r = map_option parseFloat (last_value 4 (scan s 0))"
    and "vatAmount r = map_option parseFloat (last_value 5 (scan s 0))"
    and "invoiceNumber r = Some (str ''INV-'' @ toString now)"
  unfolding parse_decoded_Some [OF assms]
  by (simp_all add: generate_invoice_number_fields calculate_subtotal_fields interpret_simps
        empty_data_def generate_invoice_number_def split: option.splits)

section \<open>Payloads and truncation\<close>

lemma length_encode_field: "length (encode_field f) = 2 + length (snd f)"
  by (simp add: encode_field_def)

lemma scan_short: "length s < 2 \<Longrightarrow> scan s 0 = []"
  by (subst scan.simps) simp

lemma scan_truncated_field:
  assumes "wf_field f" and "k < 2 + length (snd f)"
  shows "scan (take k (encode_field f)) 0 = []"
proof (cases "k < 2")
  case True
  then show ?thesis by (intro scan_short) simp
next
  case False
  then have "k = Suc (Suc (k - 2))" by simp
  then obtain j where k: "k = Suc (Suc j)" ..
  from assms have "unat (of_nat (length (snd f)) :: code_unit) = length (snd f)"
    by (simp add: wf_field_def unat_of_nat16)
  with assms k show ?thesis
    by (subst scan.simps) (simp add: encode_field_def Let_def)
qed

lemma scan_truncated_payload:
  "list_all wf_field fs \<Longrightarrow> scan (take k (payload fs)) 0 = complete_fields k fs"
proof (induction fs arbitrary: k)
  case Nil
  then show ?case by (simp add: payload_def scan_short)
next
  case (Cons f fs)
  then have wf: "wf_field f" and wfs: "list_all wf_field fs" by simp_all
  have pl: "payload (f # fs) = encode_field f @ payload fs"
    by (simp add: payload_def)
  show ?case
  proof (cases "2 + length (snd f) \<le> k")
    case True
    then have "take k (payload (f # fs)) =
        encode_field f @ take (k - (2 + length (snd f))) (payload fs)"
      by (simp add: pl length_encode_field)
    then show ?thesis
      using True Cons.IH [OF wfs] by (simp add: scan_field [OF wf])
  next
    case False
    then have "take k (payload (f # fs)) = take k (encode_field f)"
      by (simp add: pl length_encode_field)
    then show ?thesis
      using False scan_truncated_field [OF wf, of k] by simp
  qed
qed

lemma base64_index_less: "base64_index c < 64"
proof -
  have "c \<le> 0x5A \<Longrightarrow> unat c \<le> 90" "c \<le> 0x7A \<Longrightarrow> unat c \<le> 122"
    "c \<le> 0x39 \<Longrightarrow> unat c \<le> 57"
    by (simp_all add: word_le_nat_alt)
  then show ?thesis
    unfolding base64_index_def by (simp split: if_splits) linarith
qed

lemma unat_byte: "n < 256 \<Longrightarrow> unat (of_nat n :: code_unit) < 256"
  by (simp add: unat_of_nat)

lemma base64_bytes_bound:
  "\<forall>x \<in> set xs. x < 64 \<Longrightarrow> c \<in> set (base64_bytes xs) \<Longrightarrow> unat c < 256"
proof (induction xs rule: base64_bytes.induct)
  case (1 a b c' d rest)
  then have "a < 64" "b < 64" "c' < 64" "d < 64" by simp_all
  then have "a * 4 + b div 16 < 256" "b mod 16 * 16 + c' div 4 < 256" "c' mod 4 * 64 + d < 256"
    by simp_all
  with "1.prems" "1.IH" show ?case
    by (auto simp del: of_nat_add of_nat_mult intro: unat_byte)
next
  case (2 a b c')
  then have "a < 64" "b < 64" "c' < 64" by simp_all
  then have "a * 4 + b div 16 < 256" "b mod 16 * 16 + c' div 4 < 256"
    by simp_all
  with "2.prems" show ?case
    by (auto simp del: of_nat_add of_nat_mult intro: unat_byte)
next
  case (3 a b)
  then have "a < 64" "b < 64" by simp_all
  then have "a * 4 + b div 16 < 256" by simp
  with "3.prems" show ?case
    by (auto simp del: of_nat_add of_nat_mult intro: unat_byte)
qed simp_all

lemma atob_bytes:
  assumes "atob q = Inr s" and "c \<in> set s"
  shows "unat c < 256"
proof -
  from assms(1) obtain d where "s = base64_bytes (map base64_index d)"
    by (auto simp: atob_def Let_def split: if_splits)
  with assms(2) show ?thesis
    by (auto intro!: base64_bytes_bound [where xs = "map base64_index d"]
          simp: base64_index_less)
qed

section \<open>Reads and termination of the loop\<close>

lemma reads_in_bounds: "i \<in> set (reads s pos) \<Longrightarrow> i < length s"
proof (induction s pos rule: reads.induct)
  case (1 s pos)
  let ?len = "charCodeAt s (pos + 1)"
  show ?case
  proof (cases "pos + 1 < length s")
    case False
    with "1.prems" show ?thesis
      by (subst (asm) reads.simps) (simp split: if_splits)
  next
    case True
    note inside = this
    show ?thesis
    proof (cases "pos + 2 + ?len > length s")
      case True
      with inside "1.prems" show ?thesis
        by (subst (asm) reads.simps) (auto simp: Let_def)
    next
      case False
      with inside "1.prems"
      have "i \<in> {pos, pos + 1} \<or> i \<in> {pos + 2 ..< pos + 2 + ?len}
            \<or> i \<in> set (reads s (pos + 2 + ?len))"
        by (subst (asm) reads.simps) (auto simp: Let_def)
      moreover have "i \<in> set (reads s (pos + 2 + ?len)) \<Longrightarrow> i < length s"
        using inside False by (intro "1.IH") auto
      ultimately show ?thesis
        using inside False by auto
    qed
  qed
qed

lemma tlv_loop_terminates: "tlv_loop_dom (s, pos, d)"
proof (induction "length s - pos" arbitrary: pos d rule: less_induct)
  case less
  show ?case
  proof (rule accpI)
    fix y assume "tlv_loop_rel y (s, pos, d)"
    then show "tlv_loop_dom y"
      by (cases rule: tlv_loop_rel.cases) (auto intro!: less)
  qed
qed

section \<open>Results that depend only on the fields\<close>

lemma parse_decoded_cong:
  "scan s 0 = scan s' 0 \<Longrightarrow> parse_decoded now s = parse_decoded now s'"
  by (simp add: parse_decoded_def tlv_loop_scan)

lemma scan_payload_only: "list_all wf_field fs \<Longrightarrow> scan (payload fs) 0 = fs"
  using scan_payload [of fs "[]"] by (simp add: scan_short)




lemma interpret_fields_append:
  "interpret_fields d (xs @ ys) = interpret_fields (interpret_fields d xs) ys"
  by (simp add: interpret_fields_def)

lemma interpret_fields_Cons:
  "interpret_fields d (f # fs) = interpret_fields (store_field (fst f) (snd f) d) fs"
  by (simp add: interpret_fields_def)

lemma parse_decoded_interpret_cong:
  "interpret_fields empty_data (scan s 0) = interpret_fields empty_data (scan s' 0)
   \<Longrightarrow> parse_decoded now s = parse_decoded now s'"
  by (simp add: parse_decoded_def tlv_loop_scan)

lemma scan_wf: "list_all wf_field (scan s pos)"
proof (induction s pos rule: scan.induct)
  case (1 s pos)
  show ?case
  proof (cases "length s < pos + 2 \<or> length s < pos + 2 + unat (s ! (pos + 1))")
    case True
    then have "scan s pos = []"
      by (subst scan.simps) (auto simp: Let_def)
    then show ?thesis by simp
  next
    case False
    then have "scan s pos =
        (unat (s ! pos), take (unat (s ! (pos + 1))) (drop (pos + 2) s))
          # scan s (pos + 2 + unat (s ! (pos + 1)))"
      by (subst scan.simps) (simp add: Let_def)
    moreover have "list_all wf_field (scan s (pos + 2 + unat (s ! (pos + 1))))"
      using False by (intro "1.IH") auto
    moreover have "wf_field (unat (s ! pos), take (unat (s ! (pos + 1))) (drop (pos + 2) s))"
      using unsigned_less [of "s ! pos", where ?'a = nat]
        unsigned_less [of "s ! (pos + 1)", where ?'a = nat]
      by (simp add: wf_field_def)
    ultimately show ?thesis
      by simp
  qed
qed

lemma parse_decoded_complete_fields:
  "parse_decoded now s = parse_decoded now (payload (scan s 0))"
  by (rule parse_decoded_cong) (simp add: scan_payload_only scan_wf)

lemma charCodeAt_less: "i < length s \<Longrightarrow> charCodeAt s i < 65536"
  using unsigned_less [of "s ! i", where ?'a = nat]
  by (simp add: charCodeAt_def)

lemma tlv_loop_unfold:
  assumes "position + 1 < length s"
    and "position + 2 + charCodeAt s (position + 1) \<le> length s"
  shows "tlv_loop s position data =
         tlv_loop s (position + 2 + charCodeAt s (position + 1))
           (store_field (charCodeAt s position)
              (substring s (position + 2) (position + 2 + charCodeAt s (position + 1))) data)"
  using assms by (subst tlv_loop.simps) (simp add: Let_def)

text \<open>What holds of every call: the check of the three required fields, and the subtotal.\<close>

lemma missing_required_field_rejected:
  assumes "last_value 1 (tlv_fields qrData) = None \<or> last_value 2 (tlv_fields qrData) = None
           \<or> last_value 4 (tlv_fields qrData) = None"
  shows "parseZATCAQR now qrData = None \<and> \<not> isValidZATCAQR now qrData"
  using assms
  by (auto simp: isValidZATCAQR_def parseZATCAQR_def parse_decoded_None_iff tlv_fields_def)

lemma returned_record_required_fields:
  assumes "parseZATCAQR now qrData = Some r"
  shows "\<exists>name vat amount. sellerName r = Some name \<and> name \<noteq> [] \<and> vatNumber r = Some vat
           \<and> vat \<noteq> [] \<and> totalAmount r = Some amount"
proof -
  from assms have r: "parse_decoded now (decode qrData) = Some r"
    by (simp add: parseZATCAQR_def)
  then have "parse_decoded now (decode qrData) \<noteq> None" by simp
  then have "string_truthy (last_value 1 (scan (decode qrData) 0))"
    and "string_truthy (last_value 2 (scan (decode qrData) 0))"
    and "last_value 4 (scan (decode qrData) 0) \<noteq> None"
    by (simp_all add: parse_decoded_None_iff)
  with parse_decoded_fields [OF r] show ?thesis
    by (cases "last_value 1 (scan (decode qrData) 0)";
        cases "last_value 2 (scan (decode qrData) 0)") auto
qed

lemma subtotal_derivation:
  assumes "parseZATCAQR now qrData = Some r"
  shows "subtotal r =
     (case (totalAmount r, vatAmount r) of
        (Some total_amount, Some vat_amount) \<Rightarrow>
          if num_truthy total_amount \<and> num_truthy vat_amount
          then Some (num_sub total_amount vat_amount) else None
      | _ \<Rightarrow> None)"
proof -
  from assms have r: "parse_decoded now (decode qrData) = Some r"
    by (simp add: parseZATCAQR_def)
  show ?thesis
    unfolding parse_decoded_Some [OF r]
    by (simp add: generate_invoice_number_fields calculate_subtotal_fields interpret_simps
          calculate_subtotal_def empty_data_def split: option.splits)
qed

lemma subtotal_example:
  "parseZATCAQR 5 (str ''AQFBAgFCBAYxMTUuMDAFBTE1LjAw'') =
     Some \<lparr>sellerName = Some (str ''A''), vatNumber = Some (str ''B''),
           invoiceNumber = Some (str ''INV-5''), invoiceDate = None,
           subtotal = Some (Fin 100), vatAmount = Some (Fin 15), totalAmount = Some (Fin 115)\<rparr>"
  by code_simp

section \<open>parseFloat on decimal text\<close>

text \<open>
  For digits, a point and digits, \<open>parseFloat\<close> is the decimal number the text
  denotes, rounded to binary64.
\<close>

lemma digit_bounds: "is_digit c \<Longrightarrow> 48 \<le> unat c \<and> unat c \<le> 57"
  by (simp add: is_digit_def word_le_nat_alt)

lemma digit_not_whitespace: "is_digit c \<Longrightarrow> \<not> is_whitespace c"
proof
  assume d: "is_digit c" and w: "is_whitespace c"
  from d have b: "48 \<le> unat c" "unat c \<le> 57" by (simp_all add: digit_bounds)
  from w have "unat c \<in> {9, 10, 11, 12, 13, 32, 160, 5760, 8232, 8233, 8239, 8287, 12288, 65279}
      \<or> (8192 \<le> unat c \<and> unat c \<le> 8202)"
    unfolding is_whitespace_def by (auto simp: word_le_nat_alt)
  with b show False by auto
qed

lemma digit_not_sign: "is_digit c \<Longrightarrow> c \<noteq> 0x2B \<and> c \<noteq> 0x2D \<and> c \<noteq> 0x2E \<and> c \<noteq> 0x49"
  using digit_bounds [of c] by auto

lemma not_Infinity: "is_digit c \<Longrightarrow> take 8 (c # cs) \<noteq> str ''Infinity''"
  using digit_not_sign [of c] by (auto simp: str_def take_Cons')

lemma parseFloat_decimal:
  assumes "ip \<noteq> []" and "list_all is_digit ip" and "list_all is_digit fp"
  shows "parseFloat (ip @ 0x2E # fp) =
         to_double (of_int (digits_value (ip @ fp)) / 10 ^ length fp)"
proof -
  from assms(1,2) obtain c cs where ip: "ip = c # cs" and c: "is_digit c"
    by (cases ip) auto
  have dot: "\<not> is_digit 0x2E" by (simp add: is_digit_def)
  have tw: "takeWhile is_digit (ip @ 0x2E # fp) = ip"
    using assms(2) dot by (simp add: takeWhile_tail list_all_iff)
  have dw: "dropWhile is_digit (ip @ 0x2E # fp) = 0x2E # fp"
    using assms(2) dot by (simp add: dropWhile_append3 list_all_iff)
  have tf: "takeWhile is_digit fp = fp" and df: "dropWhile is_digit fp = []"
    using assms(3) by (simp_all add: list_all_iff)
  have ni: "take 8 (ip @ 0x2E # fp) \<noteq> str ''Infinity''"
    unfolding ip append_Cons by (rule not_Infinity [OF c])
  have lit: "unsigned_literal False (ip @ 0x2E # fp) =
      decimal_value False (digits_value (ip @ fp)) (- int (length fp))"
    using ni assms(1)
    by (simp add: unsigned_literal_def Let_def tw dw tf df exponent_part_def)
  have val: "decimal_value False m (- int (length fp)) =
      to_double (of_int m / 10 ^ length fp)" for m
    by (cases "fp = []") (simp_all add: decimal_value_def Let_def to_double_def)
  have "parseFloat (ip @ 0x2E # fp) = unsigned_literal False (ip @ 0x2E # fp)"
    using digit_not_whitespace [OF c] digit_not_sign [OF c]
    by (simp add: parseFloat_def ip)
  then show ?thesis by (simp add: lit val)
qed

section \<open>The claims\<close>

text \<open>
  C1. A string in which tag 1, tag 2 or tag 4 is missing, or whose tag 4 value is not
  numeric, is to be rejected: \<open>parseZATCAQR\<close> returns null and \<open>isValidZATCAQR\<close>
  returns false. The code rejects a missing tag (\<open>missing_required_field_rejected\<close>),
  but it accepts a tag 4 value that is not numeric: for the base64 text of the fields
  1 = "A", 2 = "B", 4 = "abc", \<open>parseFloat\<close> yields NaN, NaN is not \<open>undefined\<close>,
  and the record is returned with NaN as its total.
\<close>

theorem non_numeric_total_accepted:
  "tlv_fields (str ''AQFBAgFCBANhYmM='') = [(1, str ''A''), (2, str ''B''), (4, str ''abc'')]
   \<and> parseFloat (str ''abc'') = NaN
   \<and> parseZATCAQR 5 (str ''AQFBAgFCBANhYmM='') =
       Some \<lparr>sellerName = Some (str ''A''), vatNumber = Some (str ''B''),
             invoiceNumber = Some (str ''INV-5''), invoiceDate = None,
             subtotal = None, vatAmount = None, totalAmount = Some NaN\<rparr>
   \<and> isValidZATCAQR 5 (str ''AQFBAgFCBANhYmM='')"
  by code_simp

text \<open>
  C2. A record that \<open>parseZATCAQR\<close> returns is to have a non-empty seller name, a
  non-empty VAT number and a present, well-formed total. The first two hold and the
  total is present (\<open>returned_record_required_fields\<close>), but it need not be well
  formed: the raw string of the fields 1 = "Acme", 2 = "3000", 4 = "N/A", which is not
  base64 and is walked as it is, gives a record whose total is NaN.
\<close>

theorem record_with_malformed_total:
  "decode (payload [(1, str ''Acme''), (2, str ''3000''), (4, str ''N/A'')]) =
     payload [(1, str ''Acme''), (2, str ''3000''), (4, str ''N/A'')]
   \<and> parseZATCAQR 7 (payload [(1, str ''Acme''), (2, str ''3000''), (4, str ''N/A'')]) =
       Some \<lparr>sellerName = Some (str ''Acme''), vatNumber = Some (str ''3000''),
             invoiceNumber = Some (str ''INV-7''), invoiceDate = None,
             subtotal = None, vatAmount = None, totalAmount = Some NaN\<rparr>"
  by code_simp

text \<open>
  C3, as stated: tag and length are single bytes, each between 0 and 255. On the raw
  fallback path the decoded data is the scanned string itself, and a code unit above 255
  is read as it is: here the length read is 300 and the loop stores a seller name of 300
  code units.
\<close>

theorem length_above_255_counterexample:
  "decode ([1, 300] @ replicate 300 0x41) = [1, 300] @ replicate 300 0x41
   \<and> charCodeAt ([1, 300] @ replicate 300 0x41) 1 = 300
   \<and> \<not> charCodeAt ([1, 300] @ replicate 300 0x41) 1 \<le> 255
   \<and> tlv_loop ([1, 300] @ replicate 300 0x41) 0 empty_data =
       empty_data\<lparr>sellerName := Some (replicate 300 0x41)\<rparr>"
  by code_simp

text \<open>
  C3, amended. An iteration of the loop that passes both guards reads one code unit as the
  tag and the next as the length, each between 0 and 65535, and below 256 when the decoded
  data came out of \<open>atob\<close>; the value is exactly \<open>length\<close> code units taken after the
  two-unit header, empty when the length is 0; and the loop goes on at
  \<open>position + 2 + length\<close> with the field stored.
\<close>

theorem tlv_loop_step:
  assumes "position + 1 < length s"
    and "position + 2 + charCodeAt s (position + 1) \<le> length s"
  shows "let tag = charCodeAt s position;
             len = charCodeAt s (position + 1);
             val = substring s (position + 2) (position + 2 + len)
         in tag < 65536 \<and> len < 65536
            \<and> (atob qrData = Inr s \<longrightarrow> tag < 256 \<and> len < 256)
            \<and> val = take len (drop (position + 2) s) \<and> length val = len
            \<and> (len = 0 \<longrightarrow> val = [])
            \<and> tlv_loop s position data = tlv_loop s (position + 2 + len) (store_field tag val data)"
proof -
  let ?tag = "charCodeAt s position" and ?len = "charCodeAt s (position + 1)"
  let ?val = "substring s (position + 2) (position + 2 + ?len)"
  have range: "?tag < 65536" "?len < 65536"
    using assms(1) by (simp_all add: charCodeAt_less)
  have bytes: "?tag < 256 \<and> ?len < 256" if "atob qrData = Inr s"
    using atob_bytes [OF that] assms(1) by (simp add: charCodeAt_def)
  have val: "?val = take ?len (drop (position + 2) s)"
    using assms(2) by (simp add: substring_take_drop)
  have len: "length ?val = ?len"
    unfolding val using assms(2) by simp
  have step: "tlv_loop s position data = tlv_loop s (position + 2 + ?len) (store_field ?tag ?val data)"
    using assms by (rule tlv_loop_unfold)
  have empty: "?len = 0 \<longrightarrow> ?val = []"
    using len by (metis length_0_conv)
  show ?thesis
    unfolding Let_def using range bytes val len empty step by blast
qed

theorem tlv_loop_step_witness:
  "(3::nat) + 1 < length [1, 1, 65, 2, 0 :: code_unit]
   \<and> 3 + 2 + charCodeAt [1, 1, 65, 2, 0] (3 + 1) \<le> length [1, 1, 65, 2, 0 :: code_unit]
   \<and> atob (str ''AQFBAgA='') = Inr [1, 1, 65, 2, 0]
   \<and> charCodeAt [1, 1, 65, 2, 0] 3 = 2 \<and> charCodeAt [1, 1, 65, 2, 0] 4 = 0
   \<and> substring [1, 1, 65, 2, 0] 5 5 = []
   \<and> tlv_loop [1, 1, 65, 2, 0] 3 empty_data =
       tlv_loop [1, 1, 65, 2, 0] 5 (store_field 2 [] empty_data)"
proof -
  have h1: "(3::nat) + 1 < length [1, 1, 65, 2, 0 :: code_unit]" by simp
  have e1: "charCodeAt [1, 1, 65, 2, 0] 3 = 2" by code_simp
  have e2: "charCodeAt [1, 1, 65, 2, 0] 4 = 0" by code_simp
  have h2: "3 + 2 + charCodeAt [1, 1, 65, 2, 0] (3 + 1) \<le> length [1, 1, 65, 2, 0 :: code_unit]"
    by (simp add: e2)
  have a: "atob (str ''AQFBAgA='') = Inr [1, 1, 65, 2, 0]" by code_simp
  show ?thesis
    using tlv_loop_step [OF h1 h2, of "str ''AQFBAgA=''" empty_data] h1 h2 a
    by (simp add: Let_def e1 e2)
qed

text \<open>
  C4. The parser is total and safe on truncated input. The loop terminates from every
  state; every index it reads lies inside the decoded data; the result of
  \<open>parseZATCAQR\<close> is the result for the payload made of the complete fields of the
  decoded data alone; and when a well-formed payload is cut after any number \<open>k\<close> of
  code units, the walker finds exactly the fields that end within the first \<open>k\<close>
  units, a field cut in its header or in its value being dropped with all that follows.
\<close>

theorem parse_total_truncation_safe:
  assumes "list_all wf_field fs"
  shows "tlv_loop_dom (decodedData, position, data)
     \<and> (\<forall>i \<in> set (reads decodedData position). i < length decodedData)
     \<and> parseZATCAQR now qrData = parse_decoded now (payload (tlv_fields qrData))
     \<and> scan (take k (payload fs)) 0 = complete_fields k fs
     \<and> parse_decoded now (take k (payload fs)) = parse_decoded now (payload (complete_fields k fs))"
proof -
  have "parseZATCAQR now qrData = parse_decoded now (payload (tlv_fields qrData))"
    unfolding parseZATCAQR_def tlv_fields_def by (rule parse_decoded_complete_fields)
  moreover have cut: "scan (take k (payload fs)) 0 = complete_fields k fs"
    using assms by (rule scan_truncated_payload)
  moreover have "parse_decoded now (take k (payload fs)) =
      parse_decoded now (payload (complete_fields k fs))"
    using parse_decoded_complete_fields [of now "take k (payload fs)"] by (simp add: cut)
  ultimately show ?thesis
    by (simp add: tlv_loop_terminates reads_in_bounds)
qed

theorem parse_total_truncation_safe_witness:
  "list_all wf_field [(1, str ''A''), (2, str ''B''), (4, str ''7'')]
   \<and> complete_fields 7 [(1, str ''A''), (2, str ''B''), (4, str ''7'')] = [(1, str ''A''), (2, str ''B'')]
   \<and> tlv_loop_dom (take 7 (payload [(1, str ''A''), (2, str ''B''), (4, str ''7'')]), 0, empty_data)
   \<and> reads (take 7 (payload [(1, str ''A''), (2, str ''B''), (4, str ''7'')])) 0 = [0, 1, 2, 3, 4, 5]
   \<and> 5 < length (take 7 (payload [(1, str ''A''), (2, str ''B''), (4, str ''7'')]))
   \<and> scan (take 7 (payload [(1, str ''A''), (2, str ''B''), (4, str ''7'')])) 0 =
       [(1, str ''A''), (2, str ''B'')]
   \<and> parse_decoded 5 (take 7 (payload [(1, str ''A''), (2, str ''B''), (4, str ''7'')])) =
       parse_decoded 5 (payload [(1, str ''A''), (2, str ''B'')])"
proof -
  let ?cut = "take 7 (payload [(1, str ''A''), (2, str ''B''), (4, str ''7'')])"
  have h: "list_all wf_field [(1, str ''A''), (2, str ''B''), (4, str ''7'')]"
    by (simp add: wf_field_def str_def)
  have c: "complete_fields 7 [(1, str ''A''), (2, str ''B''), (4, str ''7'')] =
      [(1, str ''A''), (2, str ''B'')]"
    by (simp add: str_def)
  have r: "reads ?cut 0 = [0, 1, 2, 3, 4, 5]"
    by code_simp
  note safe = parse_total_truncation_safe [OF h, of ?cut 0 empty_data 5 ?cut 7]
  from safe have "\<forall>i \<in> set (reads ?cut 0). i < length ?cut" by blast
  then have "5 < length ?cut" unfolding r by simp
  with safe h r show ?thesis
    unfolding c by blast
qed

text \<open>
  C5, as stated: a stream that contains complete fields for tags 1, 2 and 4 with non-empty
  values and a numeric tag 4 gives a record with those values. A later field with the
  same tag overwrites an earlier one: here the fields are 1 = "A", 2 = "B", 4 = "7" and
  then 1 = "", the seller name the loop ends with is empty, and the result is null.
\<close>

theorem later_empty_seller_counterexample:
  "tlv_fields (str ''AQFBAgFCBAE3AQA='') =
     [(1, str ''A''), (2, str ''B''), (4, str ''7''), (1, [])]
   \<and> str ''A'' \<noteq> [] \<and> str ''B'' \<noteq> [] \<and> parseFloat (str ''7'') = Fin 7
   \<and> parseZATCAQR 5 (str ''AQFBAgFCBAE3AQA='') = None"
  by code_simp

text \<open>
  C5, amended. When the last complete field of tag 1 and the last complete field of tag 2
  have non-empty values and the last complete field of tag 4 has a numeric value,
  \<open>parseZATCAQR\<close> returns a record whose seller name and VAT number are those values
  and whose total is the number \<open>parseFloat\<close> reads from the tag 4 value, which is not
  NaN; for a value made of digits, a point and digits it is the decimal number the text
  denotes, rounded to binary64.
\<close>

theorem last_required_fields_parse:
  assumes "last_value 1 (tlv_fields qrData) = Some name" and "name \<noteq> []"
    and "last_value 2 (tlv_fields qrData) = Some vat" and "vat \<noteq> []"
    and "last_value 4 (tlv_fields qrData) = Some amount" and "parseFloat amount \<noteq> NaN"
  shows "\<exists>r. parseZATCAQR now qrData = Some r \<and> sellerName r = Some name
           \<and> vatNumber r = Some vat \<and> totalAmount r = Some (parseFloat amount)
           \<and> totalAmount r \<noteq> Some NaN
           \<and> (amount = ip @ 0x2E # fp \<and> ip \<noteq> [] \<and> list_all is_digit ip
                \<and> list_all is_digit fp \<longrightarrow>
              totalAmount r =
                Some (to_double (of_int (digits_value (ip @ fp)) / 10 ^ length fp)))"
proof -
  have "parse_decoded now (decode qrData) \<noteq> None"
    using assms by (simp add: parse_decoded_None_iff tlv_fields_def)
  then obtain r where r: "parse_decoded now (decode qrData) = Some r" by blast
  have total: "totalAmount r = Some (parseFloat amount)"
    using parse_decoded_fields(4) [OF r] assms(5) by (simp add: tlv_fields_def)
  have "sellerName r = Some name" "vatNumber r = Some vat"
    using parse_decoded_fields(1,2) [OF r] assms(1,3) by (simp_all add: tlv_fields_def)
  moreover have "totalAmount r \<noteq> Some NaN"
    using total assms(6) by simp
  moreover have "totalAmount r =
      Some (to_double (of_int (digits_value (ip @ fp)) / 10 ^ length fp))"
    if "amount = ip @ 0x2E # fp" "ip \<noteq> []" "list_all is_digit ip" "list_all is_digit fp"
    using total that by (simp add: parseFloat_decimal)
  ultimately show ?thesis
    using r total by (auto simp: parseZATCAQR_def)
qed

theorem last_required_fields_parse_witness:
  "last_value 1 (tlv_fields (str ''AQFBAgFCBAYxMTUuMDA='')) = Some (str ''A'') \<and> str ''A'' \<noteq> []
   \<and> last_value 2 (tlv_fields (str ''AQFBAgFCBAYxMTUuMDA='')) = Some (str ''B'') \<and> str ''B'' \<noteq> []
   \<and> last_value 4 (tlv_fields (str ''AQFBAgFCBAYxMTUuMDA='')) = Some (str ''115.00'')
   \<and> parseFloat (str ''115.00'') \<noteq> NaN
   \<and> str ''115.00'' = str ''115'' @ 0x2E # str ''00''
   \<and> str ''115'' \<noteq> [] \<and> list_all is_digit (str ''115'') \<and> list_all is_digit (str ''00'')
   \<and> (\<exists>r. parseZATCAQR 5 (str ''AQFBAgFCBAYxMTUuMDA='') = Some r
          \<and> sellerName r = Some (str ''A'') \<and> vatNumber r = Some (str ''B'')
          \<and> totalAmount r = Some (Fin 115))"
proof -
  have h1: "last_value 1 (tlv_fields (str ''AQFBAgFCBAYxMTUuMDA='')) = Some (str ''A'')"
    by code_simp
  have h2: "str ''A'' \<noteq> []" by (simp add: str_def)
  have h3: "last_value 2 (tlv_fields (str ''AQFBAgFCBAYxMTUuMDA='')) = Some (str ''B'')"
    by code_simp
  have h4: "str ''B'' \<noteq> []" by (simp add: str_def)
  have h5: "last_value 4 (tlv_fields (str ''AQFBAgFCBAYxMTUuMDA='')) = Some (str ''115.00'')"
    by code_simp
  have v: "parseFloat (str ''115.00'') = Fin 115" by code_simp
  have h6: "parseFloat (str ''115.00'') \<noteq> NaN" by (simp add: v)
  have d1: "str ''115.00'' = str ''115'' @ 0x2E # str ''00''" by code_simp
  have d2: "str ''115'' \<noteq> []" by (simp add: str_def)
  have d3: "list_all is_digit (str ''115'')" by code_simp
  have d4: "list_all is_digit (str ''00'')" by code_simp
  have e: "to_double (of_int (digits_value (str ''115'' @ str ''00'')) / 10 ^ length (str ''00''))
      = Fin 115"
    by code_simp
  from last_required_fields_parse [OF h1 h2 h3 h4 h5 h6, where ip = "str ''115''"
      and fp = "str ''00''" and now = 5]
  obtain r where "parseZATCAQR 5 (str ''AQFBAgFCBAYxMTUuMDA='') = Some r"
      "sellerName r = Some (str ''A'')" "vatNumber r = Some (str ''B'')"
      "totalAmount r = Some (Fin 115)"
    using d1 d2 d3 d4 e by auto
  with h1 h2 h3 h4 h5 h6 d1 d2 d3 d4 show ?thesis by blast
qed

text \<open>
  C6. With a total and a VAT amount that are both present and numeric, the subtotal is to
  be their difference. The code tests the two amounts for truthiness
  (\<open>subtotal_derivation\<close>), and zero is falsy: for the fields 1 = "A", 2 = "B",
  4 = "115.00", 5 = "0.00" the VAT amount is present and is 0, and the subtotal is left
  unset where the claim gives 115. (With 5 = "15.00" the subtotal is 100:
  \<open>subtotal_example\<close>.)
\<close>

theorem zero_vat_leaves_subtotal_unset:
  "tlv_fields (str ''AQFBAgFCBAYxMTUuMDAFBDAuMDA='') =
     [(1, str ''A''), (2, str ''B''), (4, str ''115.00''), (5, str ''0.00'')]
   \<and> parseFloat (str ''115.00'') = Fin 115 \<and> parseFloat (str ''0.00'') = Fin 0
   \<and> parseZATCAQR 5 (str ''AQFBAgFCBAYxMTUuMDAFBDAuMDA='') =
       Some \<lparr>sellerName = Some (str ''A''), vatNumber = Some (str ''B''),
             invoiceNumber = Some (str ''INV-5''), invoiceDate = None,
             subtotal = None, vatAmount = Some (Fin 0), totalAmount = Some (Fin 115)\<rparr>"
  by code_simp

text \<open>
  C7, as stated: an input that contains a complete tag 3 field holding a timestamp gives
  the date part of that value as the invoice date. A later tag 3 field overwrites an
  earlier one: here tag 3 is 2024-03-15T10:30:00Z and then 2025-01-01T00:00:00Z, and the
  invoice date of the record is 2025-01-01.
\<close>

theorem later_timestamp_counterexample:
  "tlv_fields (str ''AQFBAgFCBAE3AxQyMDI0LTAzLTE1VDEwOjMwOjAwWgMUMjAyNS0wMS0wMVQwMDowMDowMFo='') =
     [(1, str ''A''), (2, str ''B''), (4, str ''7''), (3, str ''2024-03-15T10:30:00Z''),
      (3, str ''2025-01-01T00:00:00Z'')]
   \<and> parseZATCAQR 5
        (str ''AQFBAgFCBAE3AxQyMDI0LTAzLTE1VDEwOjMwOjAwWgMUMjAyNS0wMS0wMVQwMDowMDowMFo='') =
       Some \<lparr>sellerName = Some (str ''A''), vatNumber = Some (str ''B''),
             invoiceNumber = Some (str ''INV-5''), invoiceDate = Some (str ''2025-01-01''),
             subtotal = None, vatAmount = None, totalAmount = Some (Fin 7)\<rparr>
   \<and> str ''2025-01-01'' \<noteq> str ''2024-03-15''"
  by code_simp

text \<open>
  C7, amended. When a record is returned and the last complete tag 3 field of the decoded
  data holds a timestamp, a date followed by \<open>T\<close> and a time, the invoice date of the
  record is the date: the part of that value before the first \<open>T\<close>.
\<close>

theorem invoice_date_is_date_part:
  assumes "parseZATCAQR now qrData = Some r"
    and "last_value 3 (tlv_fields qrData) = Some (date @ 0x54 # time)"
    and "0x54 \<notin> set date"
  shows "invoiceDate r = Some date"
proof -
  from assms(1) have r: "parse_decoded now (decode qrData) = Some r"
    by (simp add: parseZATCAQR_def)
  have "takeWhile (\<lambda>c. c \<noteq> 0x54) (date @ 0x54 # time) = date"
    using assms(3) by (auto simp: takeWhile_tail)
  with parse_decoded_fields(3) [OF r] assms(2) show ?thesis
    by (simp add: tlv_fields_def)
qed

theorem invoice_date_is_date_part_witness:
  "parseZATCAQR 5 (str ''AQFBAgFCAxQyMDI0LTAzLTE1VDEwOjMwOjAwWgQBNw=='') =
     Some \<lparr>sellerName = Some (str ''A''), vatNumber = Some (str ''B''),
           invoiceNumber = Some (str ''INV-5''), invoiceDate = Some (str ''2024-03-15''),
           subtotal = None, vatAmount = None, totalAmount = Some (Fin 7)\<rparr>
   \<and> last_value 3 (tlv_fields (str ''AQFBAgFCAxQyMDI0LTAzLTE1VDEwOjMwOjAwWgQBNw=='')) =
       Some (str ''2024-03-15'' @ 0x54 # str ''10:30:00Z'')
   \<and> 0x54 \<notin> set (str ''2024-03-15'')
   \<and> str ''2024-03-15'' @ 0x54 # str ''10:30:00Z'' = str ''2024-03-15T10:30:00Z''"
proof -
  let ?r = "\<lparr>sellerName = Some (str ''A''), vatNumber = Some (str ''B''),
           invoiceNumber = Some (str ''INV-5''), invoiceDate = Some (str ''2024-03-15''),
           subtotal = None, vatAmount = None, totalAmount = Some (Fin 7)\<rparr>"
  have h1: "parseZATCAQR 5 (str ''AQFBAgFCAxQyMDI0LTAzLTE1VDEwOjMwOjAwWgQBNw=='') = Some ?r"
    by code_simp
  have h2: "last_value 3 (tlv_fields (str ''AQFBAgFCAxQyMDI0LTAzLTE1VDEwOjMwOjAwWgQBNw=='')) =
       Some (str ''2024-03-15'' @ 0x54 # str ''10:30:00Z'')"
    by code_simp
  have h3: "0x54 \<notin> set (str ''2024-03-15'')" by code_simp
  have e: "str ''2024-03-15'' @ 0x54 # str ''10:30:00Z'' = str ''2024-03-15T10:30:00Z''"
    by code_simp
  have "invoiceDate ?r = Some (str ''2024-03-15'')"
    using h1 h2 h3 by (rule invoice_date_is_date_part)
  with h1 h2 h3 e show ?thesis by simp
qed

text \<open>
  C8. A complete field with an unrecognised tag, inserted at a field boundary of a decoded
  sequence (after any well-formed fields, before anything), leaves the result of parsing
  the sequence unchanged: the loop walks over the field and stores nothing.
\<close>

theorem unknown_tag_ignored:
  assumes "list_all wf_field pre" and "wf_field (tag, v)" and "tag \<notin> {1, 2, 3, 4, 5}"
  shows "parse_decoded now (payload pre @ encode_field (tag, v) @ rest) =
         parse_decoded now (payload pre @ rest)"
proof (rule parse_decoded_interpret_cong)
  have with_field:
    "scan (payload pre @ encode_field (tag, v) @ rest) 0 = pre @ (tag, v) # scan rest 0"
    using assms(1,2) by (simp add: scan_payload scan_field)
  have without: "scan (payload pre @ rest) 0 = pre @ scan rest 0"
    using assms(1) by (simp add: scan_payload)
  have skip: "store_field tag v d = d" for d
    using assms(3) by (simp add: store_field_def)
  show "interpret_fields empty_data (scan (payload pre @ encode_field (tag, v) @ rest) 0) =
        interpret_fields empty_data (scan (payload pre @ rest) 0)"
    by (simp add: with_field without interpret_fields_append interpret_fields_Cons skip)
qed

theorem unknown_tag_ignored_witness:
  "list_all wf_field [(1, str ''A'')] \<and> wf_field (99, str ''xyz'') \<and> (99::nat) \<notin> {1, 2, 3, 4, 5}
   \<and> parse_decoded 5 (payload [(1, str ''A'')] @ encode_field (99, str ''xyz'')
          @ payload [(2, str ''B''), (4, str ''7'')]) =
       parse_decoded 5 (payload [(1, str ''A'')] @ payload [(2, str ''B''), (4, str ''7'')])"
proof -
  have h1: "list_all wf_field [(1, str ''A'')]" by (simp add: wf_field_def str_def)
  have h2: "wf_field (99, str ''xyz'')" by (simp add: wf_field_def str_def)
  have h3: "(99::nat) \<notin> {1, 2, 3, 4, 5}" by simp
  show ?thesis
    using h1 h2 h3 unknown_tag_ignored [OF h1 h2 h3] by blast
qed

text \<open>
  C9. Two calls on the same string, at whatever times, both return null or return records
  that agree in every field but the invoice number; the invoice number of a returned
  record is always the one synthesised from the time of the call.
\<close>

theorem parse_deterministic:
  "map_option (\<lambda>r. r\<lparr>invoiceNumber := None\<rparr>) (parseZATCAQR now1 qrData) =
   map_option (\<lambda>r. r\<lparr>invoiceNumber := None\<rparr>) (parseZATCAQR now2 qrData)
   \<and> (\<forall>r. parseZATCAQR now1 qrData = Some r \<longrightarrow>
          invoiceNumber r = Some (str ''INV-'' @ toString now1))"
  by (auto simp: parseZATCAQR_def parse_decoded_fields(6))
     (simp add: parse_decoded_def Let_def generate_invoice_number_def
        generate_invoice_number_fields calculate_subtotal_fields tlv_loop_scan)

theorem parse_deterministic_witness:
  "parseZATCAQR 1 (str ''AQFBAgFCBAE3'') =
     Some \<lparr>sellerName = Some (str ''A''), vatNumber = Some (str ''B''),
           invoiceNumber = Some (str ''INV-1''), invoiceDate = None,
           subtotal = None, vatAmount = None, totalAmount = Some (Fin 7)\<rparr>
   \<and> map_option (\<lambda>r. r\<lparr>invoiceNumber := None\<rparr>) (parseZATCAQR 1 (str ''AQFBAgFCBAE3'')) =
       map_option (\<lambda>r. r\<lparr>invoiceNumber := None\<rparr>) (parseZATCAQR 2 (str ''AQFBAgFCBAE3''))"
proof -
  have "parseZATCAQR 1 (str ''AQFBAgFCBAE3'') =
     Some \<lparr>sellerName = Some (str ''A''), vatNumber = Some (str ''B''),
           invoiceNumber = Some (str ''INV-1''), invoiceDate = None,
           subtotal = None, vatAmount = None, totalAmount = Some (Fin 7)\<rparr>"
    by code_simp
  then show ?thesis
    using parse_deterministic [where ?now1.0 = 1 and qrData = "str ''AQFBAgFCBAE3''"
        and ?now2.0 = 2] by blast
qed



end
